theory Spec2Isabelle
  imports Complex_Main "HOL-Library.Log_Nat"
begin

section \<open>Data model\<close>

text \<open>
  A metadata snapshot is a Python dictionary from string keys to values. The values the
  program stores are strings (title, artist, album, status, art_url) and integers
  (position, length, both in microseconds). The dictionary is an association list looked
  up with \<open>map_of\<close>; \<open>dict.get(k)\<close> is \<open>get_item md k\<close>, \<open>None\<close> for a missing key.
  Strings are lists of 8-bit characters, read as code points below 256.
\<close>

datatype pyval = PStr string | PInt int

type_synonym metadata = "(string \<times> pyval) list"

definition get_item :: "metadata \<Rightarrow> string \<Rightarrow> pyval option" where
  "get_item md k = map_of md k"

definition get_default :: "metadata \<Rightarrow> string \<Rightarrow> pyval \<Rightarrow> pyval" where
  "get_default md k d = (case map_of md k of None \<Rightarrow> d | Some v \<Rightarrow> v)"

section \<open>Update decision (main.py, SpotifydDisplay._should_update)\<close>

text \<open>
  The first argument is the field \<open>self.last_metadata\<close>, the second the parameter
  \<open>metadata\<close>. The equations follow the order of the tests in the source.
\<close>

fun should_update :: "metadata option \<Rightarrow> metadata option \<Rightarrow> bool" where
  "should_update None None = False"
| "should_update None (Some metadata) = True"
| "should_update (Some last_metadata) None = True"
| "should_update (Some last_metadata) (Some metadata) =
     (if get_item metadata ''title'' \<noteq> get_item last_metadata ''title''
         \<or> get_item metadata ''artist'' \<noteq> get_item last_metadata ''artist'' then True
      else if get_item metadata ''status'' \<noteq> get_item last_metadata ''status'' then True
      else if get_item metadata ''status'' = Some (PStr ''Playing'') then True
      else False)"

text \<open>The snapshot the metadata source builds (main.py, MPRISClient.get_metadata).\<close>

definition snapshot :: "string \<Rightarrow> string \<Rightarrow> string \<Rightarrow> int \<Rightarrow> int \<Rightarrow> string \<Rightarrow> string \<Rightarrow> metadata" where
  "snapshot title artist album len position status art_url =
     [(''title'', PStr title), (''artist'', PStr artist), (''album'', PStr album),
      (''length'', PInt len), (''position'', PInt position), (''status'', PStr status),
      (''art_url'', PStr art_url)]"

section \<open>Text layout (display_manager.py, DisplayManager._wrap_text)\<close>

text \<open>
  \<open>str.split()\<close> without arguments: the maximal runs of non-whitespace characters, in
  order. The whitespace characters below code point 256 are those for which Python's
  \<open>str.isspace\<close> holds.
\<close>

definition is_space :: "char \<Rightarrow> bool" where
  "is_space c = (of_char c \<in> {9, 10, 11, 12, 13, 28, 29, 30, 31, 32, 133, 160 :: nat})"

function py_split :: "string \<Rightarrow> string list" where
  "py_split s =
     (case dropWhile is_space s of
        [] \<Rightarrow> []
      | c # cs \<Rightarrow> takeWhile (\<lambda>x. \<not> is_space x) (c # cs)
                 # py_split (dropWhile (\<lambda>x. \<not> is_space x) (c # cs)))"
  by pat_completeness auto
termination
proof (relation "measure length")
  show "wf (measure length)" by simp
next
  fix s :: string and c cs
  assume h: "dropWhile is_space s = c # cs"
  then have nsp: "\<not> is_space c" using hd_dropWhile [of is_space s] by auto
  have "length (c # cs) \<le> length s" using h length_dropWhile_le [of is_space s] by simp
  moreover have "length (dropWhile (\<lambda>x. \<not> is_space x) (c # cs)) < length (c # cs)"
    using nsp length_dropWhile_le [of "\<lambda>x. \<not> is_space x" cs] by simp
  ultimately show "(dropWhile (\<lambda>x. \<not> is_space x) (c # cs), s) \<in> measure length" by simp
qed

declare py_split.simps [simp del]

text \<open>\<open>str.strip()\<close>: the string without its leading and trailing whitespace.\<close>

definition py_strip :: "string \<Rightarrow> string" where
  "py_strip s = rev (dropWhile is_space (rev (dropWhile is_space s)))"

text \<open>\<open>' '.join(ws)\<close>\<close>

fun join_space :: "string list \<Rightarrow> string" where
  "join_space [] = []"
| "join_space [w] = w"
| "join_space (w # v # ws) = w @ CHR '' '' # join_space (v # ws)"

text \<open>
  The three fonts of the display manager, and the font metric: \<open>textbbox f s\<close> is the
  bounding box \<open>(x0, y0, x1, y1)\<close> that \<open>ImageDraw.textbbox((0, 0), s, font=f)\<close> returns.
  The metric belongs to the imaging library and is a parameter of the model.
\<close>

datatype font = font_large | font_medium | font_small

type_synonym bbox = "int \<times> int \<times> int \<times> int"

definition text_width :: "(font \<Rightarrow> string \<Rightarrow> bbox) \<Rightarrow> font \<Rightarrow> string \<Rightarrow> int" where
  "text_width textbbox f s = (case textbbox f s of (x0, y0, x1, y1) \<Rightarrow> x1 - x0)"

text \<open>The body of the loop over the words, with the two accumulators of the source.\<close>

fun wrap_loop :: "(string \<Rightarrow> int) \<Rightarrow> int \<Rightarrow> string list \<Rightarrow> string list \<Rightarrow> string list
    \<Rightarrow> string list \<times> string list" where
  "wrap_loop width max_width [] lines current_line = (lines, current_line)"
| "wrap_loop width max_width (word # words) lines current_line =
     (if width (join_space (current_line @ [word])) \<le> max_width
      then wrap_loop width max_width words lines (current_line @ [word])
      else if current_line \<noteq> []
      then wrap_loop width max_width words (lines @ [join_space current_line]) [word]
      else wrap_loop width max_width words (lines @ [word]) current_line)"

definition wrap_text :: "(font \<Rightarrow> string \<Rightarrow> bbox) \<Rightarrow> string \<Rightarrow> font \<Rightarrow> int \<Rightarrow> string list" where
  "wrap_text textbbox text f max_width =
     (if text = [] then [[]]
      else case wrap_loop (text_width textbbox f) max_width (py_split text) [] [] of
        (lines, current_line) \<Rightarrow>
          (let lines' = (if current_line \<noteq> [] then lines @ [join_space current_line] else lines)
           in if lines' \<noteq> [] then lines' else [[]]))"

text \<open>A word of \<open>str.split()\<close>: not empty and free of whitespace.\<close>

definition word_ok :: "string \<Rightarrow> bool" where
  "word_ok w = (w \<noteq> [] \<and> (\<forall>c \<in> set w. \<not> is_space c))"

section \<open>Time formatting (display_manager.py, DisplayManager._format_time)\<close>

text \<open>The decimal digits of a natural number, as \<open>str\<close> prints them.\<close>

definition digit_char :: "nat \<Rightarrow> char" where
  "digit_char d = ''0123456789'' ! d"

function dec_str :: "nat \<Rightarrow> string" where
  "dec_str n = (if n < 10 then [digit_char n] else dec_str (n div 10) @ [digit_char (n mod 10)])"
  by pat_completeness auto
termination
  by (relation "measure id") auto

declare dec_str.simps [simp del]

text \<open>
  The format specification \<open>02d\<close>: the decimal digits, with a minus sign for a negative
  number, padded with zeros after the sign to a total width of at least two.
\<close>

definition format_02d :: "int \<Rightarrow> string" where
  "format_02d n =
     (if n < 0 then CHR ''-'' # dec_str (nat (- n))
      else replicate (2 - length (dec_str (nat n))) CHR ''0'' @ dec_str (nat n))"

definition format_time :: "int \<Rightarrow> string" where
  "format_time seconds =
     (let minutes = seconds div 60; seconds' = seconds mod 60
      in format_02d minutes @ '':'' @ format_02d seconds')"

section \<open>Floating point\<close>

text \<open>
  A Python float is an IEEE 754 binary64 number; the model keeps its value as a rational.
  \<open>round_binary64 x\<close> is the nearest number with a 53-bit significand and an exponent of
  at least \<open>-1074\<close>, ties going to the even significand. A result of magnitude \<open>2 ^ 1024\<close>
  or more is out of range: the division of two integers and the conversion of an integer
  raise OverflowError, a product becomes infinite and its conversion to an integer raises
  OverflowError.
\<close>

datatype py_error = TypeError | AttributeError | ZeroDivisionError | OverflowError

definition bind_err :: "py_error + 'a \<Rightarrow> ('a \<Rightarrow> py_error + 'b) \<Rightarrow> py_error + 'b" where
  "bind_err m f = (case m of Inl e \<Rightarrow> Inl e | Inr x \<Rightarrow> f x)"

definition round_half_even :: "rat \<Rightarrow> int" where
  "round_half_even x =
     (let n = \<lfloor>x\<rfloor>; d = x - of_int n
      in if d < 1 / 2 then n else if 1 / 2 < d then n + 1 else if even n then n else n + 1)"

definition floor_log2 :: "rat \<Rightarrow> int" where
  "floor_log2 x =
     (if 1 \<le> x then int (floorlog 2 (nat \<lfloor>x\<rfloor>)) - 1
      else - int (floorlog 2 (nat (\<lceil>1 / x\<rceil> - 1))))"

definition round_binary64 :: "rat \<Rightarrow> rat" where
  "round_binary64 x =
     (if x = 0 then 0
      else let e = max (floor_log2 \<bar>x\<bar> - 52) (- 1074)
           in of_int (round_half_even (x / 2 powi e)) * 2 powi e)"

definition in_range :: "rat \<Rightarrow> py_error + rat" where
  "in_range x = (if 2 ^ 1024 \<le> \<bar>x\<bar> then Inl OverflowError else Inr x)"

text \<open>\<open>a / b\<close> on two integers: the correctly rounded quotient.\<close>

definition true_div :: "int \<Rightarrow> int \<Rightarrow> py_error + rat" where
  "true_div a b =
     (if b = 0 then Inl ZeroDivisionError else in_range (round_binary64 (of_int a / of_int b)))"

text \<open>\<open>int(n * x)\<close> for an integer \<open>n\<close> and a float \<open>x\<close>; \<open>int\<close> truncates towards zero.\<close>

definition int_of_float :: "rat \<Rightarrow> int" where
  "int_of_float x = (if 0 \<le> x then \<lfloor>x\<rfloor> else \<lceil>x\<rceil>)"

definition int_of_product :: "int \<Rightarrow> rat \<Rightarrow> py_error + int" where
  "int_of_product n x =
     bind_err (in_range (round_binary64 (of_int n))) (\<lambda>fn.
     bind_err (in_range (round_binary64 (fn * x))) (\<lambda>p. Inr (int_of_float p)))"

section \<open>Rendering (display_manager.py, DisplayManager.update_display and show_idle)\<close>

text \<open>
  A frame is the image handed to the driver: its mode, its size and the drawing calls made
  on the white canvas, in order. The three status glyphs are code points above 255 and
  are kept symbolic.
\<close>

datatype status_icon = play_icon | pause_icon | stop_icon

datatype draw_op =
    DrawIcon "int \<times> int" status_icon string font
  | DrawText "int \<times> int" string string font
  | DrawRect "int \<times> int \<times> int \<times> int" "string option" "string option"

record frame =
  mode :: string
  frame_size :: "int \<times> int"
  ops :: "draw_op list"

record config =
  display_type :: string
  display_width :: int
  display_height :: int

definition new_image :: "config \<Rightarrow> frame" where
  "new_image cfg =
     \<lparr>mode = (if display_type cfg \<noteq> ''epaper'' then ''RGB'' else ''L''),
      frame_size = (display_width cfg, display_height cfg), ops = []\<rparr>"

text \<open>\<open>v // d\<close> for a dictionary value: defined on integers.\<close>

definition floordiv_value :: "pyval \<Rightarrow> int \<Rightarrow> py_error + int" where
  "floordiv_value v d = (case v of PInt n \<Rightarrow> Inr (n div d) | PStr s \<Rightarrow> Inl TypeError)"

text \<open>
  \<open>_wrap_text\<close> on a dictionary value: an integer passes the test \<open>not text\<close> when it is
  zero and has no method \<open>split\<close> otherwise.
\<close>

definition wrap_value :: "(font \<Rightarrow> string \<Rightarrow> bbox) \<Rightarrow> pyval \<Rightarrow> font \<Rightarrow> int \<Rightarrow> py_error + string list" where
  "wrap_value textbbox v f max_width =
     (case v of PStr s \<Rightarrow> Inr (wrap_text textbbox s f max_width)
      | PInt n \<Rightarrow> if n = 0 then Inr [[]] else Inl AttributeError)"

text \<open>The loop \<open>for line in lines: draw.text(...); y_pos += advance\<close>.\<close>

fun draw_lines :: "int \<Rightarrow> int \<Rightarrow> font \<Rightarrow> int \<Rightarrow> string list \<Rightarrow> draw_op list \<times> int" where
  "draw_lines margin advance f y_pos [] = ([], y_pos)"
| "draw_lines margin advance f y_pos (line # lines) =
     (case draw_lines margin advance f (y_pos + advance) lines of
        (rest, y_end) \<Rightarrow> (DrawText (margin, y_pos) line ''black'' f # rest, y_end))"

text \<open>
  The progress fraction: \<open>position / length if length > 0 else 0\<close>, clamped by
  \<open>min(1.0, max(0.0, progress))\<close>. Both arguments are in seconds.
\<close>

definition progress_fraction :: "int \<Rightarrow> int \<Rightarrow> py_error + rat" where
  "progress_fraction position len =
     bind_err (if len > 0 then true_div position len else Inr 0) (\<lambda>progress.
     Inr (min 1 (max 0 progress)))"

text \<open>The block under \<open>if length > 0\<close>; \<open>position\<close> and \<open>length\<close> are in seconds.\<close>

definition draw_progress :: "config \<Rightarrow> int \<Rightarrow> int \<Rightarrow> int \<Rightarrow> py_error + draw_op list" where
  "draw_progress cfg margin position len =
     (let y_pos = display_height cfg - 35 in
      bind_err (progress_fraction position len) (\<lambda>progress.
      let bar_width = display_width cfg - 2 * margin;
          bar_height = 10;
          bar_x = margin;
          bar_y = y_pos
      in bind_err (int_of_product bar_width progress) (\<lambda>fill_width.
         Inr ([DrawRect (bar_x, bar_y, bar_x + bar_width, bar_y + bar_height)
                 (Some ''black'') (Some ''white'')]
              @ (if fill_width > 0
                 then [DrawRect (bar_x, bar_y, bar_x + fill_width, bar_y + bar_height)
                         None (Some ''black'')]
                 else [])
              @ [DrawText (margin, bar_y + bar_height + 2)
                   (format_time position @ '' / '' @ format_time len) ''black'' font_small]))))"

text \<open>
  The first part of \<open>update_display\<close>: the status glyph and the wrapped title, artist and
  album, with the running \<open>y_pos\<close>. Only the wrapping can fail.
\<close>

definition draw_header :: "(font \<Rightarrow> string \<Rightarrow> bbox) \<Rightarrow> config \<Rightarrow> metadata \<Rightarrow> py_error + draw_op list" where
  "draw_header textbbox cfg metadata =
     (let title = get_default metadata ''title'' (PStr ''Unknown Title'');
          artist = get_default metadata ''artist'' (PStr ''Unknown Artist'');
          album = get_default metadata ''album'' (PStr ''Unknown Album'');
          status = get_default metadata ''status'' (PStr ''Stopped'');
          margin = 5;
          y_pos = margin;
          status_icon = (if status = PStr ''Playing'' then play_icon
                         else if status = PStr ''Paused'' then pause_icon else stop_icon);
          ops0 = [DrawIcon (margin, y_pos) status_icon ''black'' font_medium];
          y_pos = y_pos + 25
      in bind_err (wrap_value textbbox title font_large (display_width cfg - 2 * margin)) (\<lambda>title_wrapped.
         case draw_lines margin 25 font_large y_pos (take 2 title_wrapped) of (ops1, y_pos) \<Rightarrow>
         bind_err (wrap_value textbbox artist font_medium (display_width cfg - 2 * margin)) (\<lambda>artist_wrapped.
         case draw_lines margin 20 font_medium y_pos (take 1 artist_wrapped) of (ops2, y_pos) \<Rightarrow>
         bind_err (wrap_value textbbox album font_small (display_width cfg - 2 * margin)) (\<lambda>album_wrapped.
         case draw_lines margin 18 font_small y_pos (take 1 album_wrapped) of (ops3, y_pos) \<Rightarrow>
         Inr (ops0 @ ops1 @ ops2 @ ops3)))))"

text \<open>
  \<open>update_display\<close>: position and length are read and converted to seconds first, then
  the header is drawn, then the progress bar under \<open>if length > 0\<close>, and the image goes
  to the driver.
\<close>

definition update_display :: "(font \<Rightarrow> string \<Rightarrow> bbox) \<Rightarrow> config \<Rightarrow> metadata \<Rightarrow> py_error + frame" where
  "update_display textbbox cfg metadata =
     (let img = new_image cfg
      in bind_err (floordiv_value (get_default metadata ''position'' (PInt 0)) 1000000) (\<lambda>position.
         bind_err (floordiv_value (get_default metadata ''length'' (PInt 0)) 1000000) (\<lambda>len.
         bind_err (draw_header textbbox cfg metadata) (\<lambda>head.
         bind_err (if len > 0 then draw_progress cfg 5 position len else Inr []) (\<lambda>bar.
         Inr (img\<lparr>ops := head @ bar\<rparr>))))))"

text \<open>
  The drawing calls of the progress block for a given fill width: the outlined bar, the
  filled part when its width is positive, and the time label.
\<close>

definition progress_ops :: "config \<Rightarrow> int \<Rightarrow> int \<Rightarrow> int \<Rightarrow> draw_op list" where
  "progress_ops cfg position len fill_width =
     [DrawRect (5, display_height cfg - 35, 5 + (display_width cfg - 10), display_height cfg - 25)
        (Some ''black'') (Some ''white'')]
     @ (if fill_width > 0
        then [DrawRect (5, display_height cfg - 35, 5 + fill_width, display_height cfg - 25)
                None (Some ''black'')]
        else [])
     @ [DrawText (5, display_height cfg - 23)
          (format_time position @ '' / '' @ format_time len) ''black'' font_small]"

text \<open>
  The values a player supplies: strings for title, artist and album, integers for
  position and length, where the key is present.
\<close>

definition well_typed :: "metadata \<Rightarrow> bool" where
  "well_typed md =
     ((\<forall>k \<in> set [''title'', ''artist'', ''album''].
         case get_item md k of Some (PInt n) \<Rightarrow> False | _ \<Rightarrow> True)
      \<and> (\<forall>k \<in> set [''position'', ''length''].
         case get_item md k of Some (PStr s) \<Rightarrow> False | _ \<Rightarrow> True))"

fun is_rect :: "draw_op \<Rightarrow> bool" where
  "is_rect (DrawRect box outline fill) = True"
| "is_rect op = False"

definition show_idle :: "(font \<Rightarrow> string \<Rightarrow> bbox) \<Rightarrow> config \<Rightarrow> frame" where
  "show_idle textbbox cfg =
     (let img = new_image cfg; text = ''No music playing''
      in case textbbox font_medium text of (x0, y0, x1, y1) \<Rightarrow>
        (let text_width = x1 - x0;
             text_height = y1 - y0;
             x = (display_width cfg - text_width) div 2;
             y = (display_height cfg - text_height) div 2
         in img\<lparr>ops := [DrawText (x, y) text ''black'' font_medium]\<rparr>))"

section \<open>Poll loop (main.py, SpotifydDisplay._update_loop)\<close>

text \<open>
  The state of the application: the remembered snapshot and the frames handed to the
  driver so far. One tick is one iteration of the loop on the snapshot the metadata
  source returned. An exception raised while rendering is caught by the loop, which logs
  it and leaves the state as it is. An empty dictionary is false in \<open>if metadata\<close>.
\<close>

record app =
  last_metadata :: "metadata option"
  displayed :: "frame list"

definition tick :: "(font \<Rightarrow> string \<Rightarrow> bbox) \<Rightarrow> config \<Rightarrow> app \<Rightarrow> metadata option \<Rightarrow> app" where
  "tick textbbox cfg st metadata =
     (if should_update (last_metadata st) metadata then
        (if metadata \<noteq> None \<and> metadata \<noteq> Some [] then
           (case update_display textbbox cfg (the metadata) of
              Inl e \<Rightarrow> st
            | Inr img \<Rightarrow> st\<lparr>displayed := displayed st @ [img], last_metadata := metadata\<rparr>)
         else if last_metadata st \<noteq> None then
           st\<lparr>displayed := displayed st @ [show_idle textbbox cfg], last_metadata := None\<rparr>
         else st)
      else st)"

definition update_loop :: "(font \<Rightarrow> string \<Rightarrow> bbox) \<Rightarrow> config \<Rightarrow> app \<Rightarrow> metadata option list \<Rightarrow> app" where
  "update_loop textbbox cfg st snapshots = foldl (tick textbbox cfg) st snapshots"

definition initial_app :: app where
  "initial_app = \<lparr>last_metadata = None, displayed = []\<rparr>"

text \<open>The default configuration (config.py, Config.DEFAULT_CONFIG).\<close>

definition default_config :: config where
  "default_config = \<lparr>display_type = ''virtual'', display_width = 250, display_height = 122\<rparr>"

text \<open>
  The dictionary with every key that \<open>update_display\<close> reads: a key the dictionary
  lacks gets the default of the corresponding \<open>metadata.get\<close> call.
\<close>

definition with_defaults :: "metadata \<Rightarrow> metadata" where
  "with_defaults md =
     md @ [(''title'', PStr ''Unknown Title''), (''artist'', PStr ''Unknown Artist''),
           (''album'', PStr ''Unknown Album''), (''status'', PStr ''Stopped''),
           (''position'', PInt 0), (''length'', PInt 0)]"

text \<open>A metric for concrete runs: every character is 6 pixels wide and 11 high.\<close>

definition fixed_metric :: "font \<Rightarrow> string \<Rightarrow> bbox" where
  "fixed_metric f s = (0, 0, 6 * int (length s), 11)"

section \<open>Lemmas on splitting and joining\<close>

lemma py_split_stop: "dropWhile is_space s = [] \<Longrightarrow> py_split s = []"
  by (subst py_split.simps) (simp only: list.case)

lemma py_split_step:
  "dropWhile is_space s = c # cs \<Longrightarrow>
   py_split s = takeWhile (\<lambda>x. \<not> is_space x) (c # cs)
     # py_split (dropWhile (\<lambda>x. \<not> is_space x) (c # cs))"
  by (subst py_split.simps) (simp only: list.case)

lemma is_space_blank: "is_space (CHR '' '')"
  by (simp add: is_space_def)

lemma py_split_Nil: "py_split [] = []"
  by (simp add: py_split_stop)

lemma py_split_space_Cons: "is_space c \<Longrightarrow> py_split (c # s) = py_split s"
proof (cases "dropWhile is_space s")
  case Nil
  assume "is_space c"
  with Nil show ?thesis by (simp add: py_split_stop)
next
  case (Cons d ds)
  assume "is_space c"
  with Cons have "dropWhile is_space (c # s) = d # ds" by simp
  from py_split_step [OF this] py_split_step [OF Cons] show ?thesis by simp
qed

lemma py_split_word_append:
  assumes "word_ok w" and "r = [] \<or> is_space (hd r)"
  shows "py_split (w @ r) = w # py_split r"
proof -
  obtain c cs where w: "w = c # cs" using assms(1) by (cases w) (auto simp: word_ok_def)
  have nsp: "\<forall>x \<in> set w. \<not> is_space x" using assms(1) by (simp add: word_ok_def)
  have d: "dropWhile is_space (w @ r) = c # (cs @ r)" using w nsp by simp
  have t: "takeWhile (\<lambda>x. \<not> is_space x) (w @ r) = w"
    using nsp assms(2) by (cases r) auto
  have e: "dropWhile (\<lambda>x. \<not> is_space x) (w @ r) = r"
    using nsp assms(2) by (cases r) auto
  have "py_split (w @ r) = takeWhile (\<lambda>x. \<not> is_space x) (c # (cs @ r))
      # py_split (dropWhile (\<lambda>x. \<not> is_space x) (c # (cs @ r)))"
    by (rule py_split_step [OF d])
  moreover have "c # (cs @ r) = w @ r" using w by simp
  ultimately show ?thesis using t e by (simp only:)
qed

lemma py_split_words_ok: "w \<in> set (py_split s) \<Longrightarrow> word_ok w"
proof (induction s arbitrary: w rule: py_split.induct)
  case (1 s)
  show ?case
  proof (cases "dropWhile is_space s")
    case Nil
    with "1.prems" show ?thesis by (simp add: py_split_stop)
  next
    case (Cons c cs)
    then have nsp: "\<not> is_space c" using hd_dropWhile [of is_space s] by auto
    from "1.prems" py_split_step [OF Cons] have
      "w = takeWhile (\<lambda>x. \<not> is_space x) (c # cs)
       \<or> w \<in> set (py_split (dropWhile (\<lambda>x. \<not> is_space x) (c # cs)))"
      by simp
    then show ?thesis
    proof
      assume "w = takeWhile (\<lambda>x. \<not> is_space x) (c # cs)"
      then show ?thesis using nsp by (auto simp: word_ok_def dest: set_takeWhileD)
    next
      assume "w \<in> set (py_split (dropWhile (\<lambda>x. \<not> is_space x) (c # cs)))"
      then show ?thesis using "1.IH" [OF Cons] by simp
    qed
  qed
qed

lemma py_split_join_space:
  "\<forall>w \<in> set ws. word_ok w \<Longrightarrow> py_split (join_space ws) = ws"
proof (induction ws rule: join_space.induct)
  case 1
  show ?case by (simp add: py_split_Nil)
next
  case (2 w)
  then have "word_ok w" by simp
  from py_split_word_append [OF this, of "[]"] show ?case by (simp add: py_split_Nil)
next
  case (3 w v ws)
  then have w: "word_ok w" and IH: "py_split (join_space (v # ws)) = v # ws" by simp_all
  have "py_split (w @ CHR '' '' # join_space (v # ws)) = w # py_split (CHR '' '' # join_space (v # ws))"
    using py_split_word_append [OF w, of "CHR '' '' # join_space (v # ws)"] is_space_blank by simp
  also have "py_split (CHR '' '' # join_space (v # ws)) = py_split (join_space (v # ws))"
    by (rule py_split_space_Cons [OF is_space_blank])
  finally show ?case using IH by simp
qed

lemma wrap_loop_words:
  "\<forall>w \<in> set words. word_ok w \<Longrightarrow> \<forall>w \<in> set current_line. word_ok w \<Longrightarrow>
   wrap_loop width max_width words lines current_line = (lines', current') \<Longrightarrow>
   concat (map py_split lines') @ current' = concat (map py_split lines) @ current_line @ words
   \<and> (\<forall>w \<in> set current'. word_ok w)"
proof (induction words arbitrary: lines current_line)
  case Nil
  then show ?case by simp
next
  case (Cons word words)
  have wk: "word_ok word" using Cons.prems(1) by simp
  have ws: "\<forall>w \<in> set words. word_ok w" using Cons.prems(1) by simp
  consider (fits) "width (join_space (current_line @ [word])) \<le> max_width"
    | (flush) "\<not> width (join_space (current_line @ [word])) \<le> max_width" "current_line \<noteq> []"
    | (alone) "\<not> width (join_space (current_line @ [word])) \<le> max_width" "current_line = []"
    by blast
  then show ?case
  proof cases
    case fits
    then have r: "wrap_loop width max_width words lines (current_line @ [word]) = (lines', current')"
      using Cons.prems(3) by simp
    have "\<forall>w \<in> set (current_line @ [word]). word_ok w" using Cons.prems(2) wk by simp
    from Cons.IH [OF ws this r] show ?thesis by simp
  next
    case flush
    then have r: "wrap_loop width max_width words (lines @ [join_space current_line]) [word] = (lines', current')"
      using Cons.prems(3) by simp
    have "\<forall>w \<in> set [word]. word_ok w" using wk by simp
    from Cons.IH [OF ws this r] py_split_join_space [OF Cons.prems(2)] show ?thesis by simp
  next
    case alone
    then have r: "wrap_loop width max_width words (lines @ [word]) current_line = (lines', current')"
      using Cons.prems(3) by simp
    from Cons.IH [OF ws Cons.prems(2) r] alone py_split_word_append [OF wk, of "[]"]
    show ?thesis by (simp add: py_split_Nil)
  qed
qed

lemma wrap_text_words: "concat (map py_split (wrap_text textbbox text f max_width)) = py_split text"
proof (cases "text = []")
  case True
  then show ?thesis by (simp add: wrap_text_def py_split_Nil)
next
  case False
  obtain lines current where r:
    "wrap_loop (text_width textbbox f) max_width (py_split text) [] [] = (lines, current)"
    by (cases "wrap_loop (text_width textbbox f) max_width (py_split text) [] []")
  have ok: "\<forall>w \<in> set (py_split text). word_ok w" using py_split_words_ok by blast
  have "\<forall>w \<in> set ([]::string list). word_ok w" by simp
  from wrap_loop_words [OF ok this r]
  have eq: "concat (map py_split lines) @ current = py_split text"
    and cur: "\<forall>w \<in> set current. word_ok w" by simp_all
  show ?thesis
  proof (cases "current = []")
    case True
    with eq False r show ?thesis by (cases "lines = []") (simp_all add: wrap_text_def py_split_Nil)
  next
    case c: False
    with eq False r py_split_join_space [OF cur] show ?thesis
      by (simp add: wrap_text_def)
  qed
qed

section \<open>Lemmas on rounding\<close>

lemma floorlog2_unique: "2 ^ k \<le> n \<Longrightarrow> n < 2 ^ Suc k \<Longrightarrow> floorlog 2 n = Suc k"
proof -
  assume a: "2 ^ k \<le> n" and b: "n < 2 ^ Suc k"
  have "Suc k \<le> floorlog 2 n" using floorlog_ge_SucI [of 2 k n] a by simp
  moreover have "floorlog 2 n \<le> Suc k" using floorlog_leI [of n 2 "Suc k"] b by simp
  ultimately show ?thesis by simp
qed

lemma floor_log2_ge1:
  fixes x :: rat
  assumes "2 ^ k \<le> x" and "x < 2 ^ Suc k"
  shows "floor_log2 x = int k"
proof -
  have "(1::rat) \<le> 2 ^ k" by simp
  then have one: "1 \<le> x" using assms(1) by linarith
  have "of_int (2 ^ k) \<le> x" using assms(1) by simp
  then have lo: "2 ^ k \<le> \<lfloor>x\<rfloor>" by (simp only: le_floor_iff)
  have "x < of_int (2 ^ Suc k)" using assms(2) by simp
  then have hi: "\<lfloor>x\<rfloor> < 2 ^ Suc k" by (simp only: floor_less_iff)
  have "int (2 ^ k) \<le> \<lfloor>x\<rfloor>" using lo by simp
  then have lo': "2 ^ k \<le> nat \<lfloor>x\<rfloor>" by linarith
  have "\<lfloor>x\<rfloor> < int (2 ^ Suc k)" using hi by simp
  moreover have "0 \<le> \<lfloor>x\<rfloor>" using lo zero_less_power [of "2::int" k] by linarith
  ultimately have hi': "nat \<lfloor>x\<rfloor> < 2 ^ Suc k" by (simp only: nat_less_iff)
  show ?thesis using one floorlog2_unique [OF lo' hi'] by (simp add: floor_log2_def)
qed

lemma floor_log2_lt1:
  fixes x :: rat
  assumes "1 / 2 ^ Suc i \<le> x" and "x < 1 / 2 ^ i"
  shows "floor_log2 x = - int (Suc i)"
proof -
  have "(0::rat) < 1 / 2 ^ Suc i" by simp
  then have pos: "0 < x" using assms(1) by linarith
  have "1 / 2 ^ i \<le> (1::rat)" by (simp add: divide_le_eq)
  then have lt1: "\<not> 1 \<le> x" using assms(2) by linarith
  have a: "2 ^ i < 1 / x" using assms(2) pos by (simp add: field_simps)
  have b: "1 / x \<le> 2 ^ Suc i" using assms(1) pos by (simp add: field_simps)
  have "of_int (2 ^ i) < 1 / x" using a by simp
  then have lo: "2 ^ i < \<lceil>1 / x\<rceil>" by (simp only: less_ceiling_iff)
  have "1 / x \<le> of_int (2 ^ Suc i)" using b by simp
  then have hi: "\<lceil>1 / x\<rceil> \<le> 2 ^ Suc i" by (simp only: ceiling_le_iff)
  have "int (2 ^ i) < \<lceil>1 / x\<rceil>" using lo by simp
  then have lo': "2 ^ i \<le> nat (\<lceil>1 / x\<rceil> - 1)" by linarith
  have "\<lceil>1 / x\<rceil> \<le> int (2 ^ Suc i)" using hi by simp
  then have "\<lceil>1 / x\<rceil> - 1 < int (2 ^ Suc i)" by linarith
  moreover have "0 \<le> \<lceil>1 / x\<rceil> - 1" using lo zero_less_power [of "2::int" i] by linarith
  ultimately have hi': "nat (\<lceil>1 / x\<rceil> - 1) < 2 ^ Suc i" by (simp only: nat_less_iff)
  show ?thesis using lt1 floorlog2_unique [OF lo' hi'] by (simp add: floor_log2_def)
qed

lemma floor_log2_unique:
  fixes x :: rat
  assumes "2 powi k \<le> x" and "x < 2 powi (k + 1)"
  shows "floor_log2 x = k"
proof (cases "0 \<le> k")
  case True
  then have "2 ^ nat k \<le> x" and "x < 2 ^ Suc (nat k)"
    using assms by (simp_all add: power_int_def nat_add_distrib)
  from floor_log2_ge1 [OF this] True show ?thesis by simp
next
  case False
  define i where "i = nat (- k - 1)"
  have k: "k = - int (Suc i)" and k': "k + 1 = - int i" using False by (simp_all add: i_def)
  have e1: "(2::rat) powi k = 1 / 2 ^ Suc i"
    unfolding k by (simp only: power_int_minus power_int_of_nat inverse_eq_divide)
  have e2: "(2::rat) powi (k + 1) = 1 / 2 ^ i"
    unfolding k' by (simp only: power_int_minus power_int_of_nat inverse_eq_divide)
  have "1 / 2 ^ Suc i \<le> x" using assms(1) by (simp only: e1)
  moreover have "x < 1 / 2 ^ i" using assms(2) by (simp only: e2)
  ultimately have "floor_log2 x = - int (Suc i)" by (rule floor_log2_lt1)
  then show ?thesis by (simp only: k)
qed

lemma round_half_even_near:
  assumes "\<bar>x - of_int m\<bar> < 1 / 2"
  shows "round_half_even x = m"
proof (cases "of_int m \<le> x")
  case True
  then have "\<lfloor>x\<rfloor> = m" using assms by (intro floor_unique) auto
  then show ?thesis using assms True by (simp add: round_half_even_def Let_def)
next
  case False
  then have "\<lfloor>x\<rfloor> = m - 1" using assms by (intro floor_unique) auto
  then show ?thesis using assms False by (simp add: round_half_even_def Let_def)
qed

lemma round_half_even_of_int: "round_half_even (of_int m) = m"
  by (rule round_half_even_near) simp

lemma round_half_even_ge_floor: "\<lfloor>x\<rfloor> \<le> round_half_even x"
  by (simp add: round_half_even_def Let_def)

lemma round_binary64_certificate:
  assumes "2 powi k \<le> \<bar>x\<bar>" and "\<bar>x\<bar> < 2 powi (k + 1)"
    and "e = max (k - 52) (- 1074)" and "\<bar>x / 2 powi e - of_int m\<bar> < 1 / 2"
  shows "round_binary64 x = of_int m * 2 powi e"
proof -
  have p: "0 < (2::rat) powi k" by simp
  have nz: "x \<noteq> 0"
  proof
    assume "x = 0"
    then have "\<bar>x\<bar> = 0" by simp
    with assms(1) p show False by linarith
  qed
  have "floor_log2 \<bar>x\<bar> = k" by (rule floor_log2_unique [OF assms(1,2)])
  then show ?thesis
    using nz assms(3) round_half_even_near [OF assms(4)] by (simp add: round_binary64_def Let_def)
qed

lemma in_range_small: "\<bar>x\<bar> < 2 ^ 1024 \<Longrightarrow> in_range x = Inr x"
  by (simp add: in_range_def)

lemma floor_log2_bounds:
  fixes x :: rat
  assumes "0 < x"
  shows "2 powi floor_log2 x \<le> x \<and> x < 2 powi (floor_log2 x + 1)"
proof (cases "1 \<le> x")
  case True
  define n where "n = nat \<lfloor>x\<rfloor>"
  have n1: "0 < n" using True by (simp add: n_def)
  define k where "k = floorlog 2 n - 1"
  have fp: "0 < floorlog 2 n" using n1 by (simp add: floorlog_def)
  have fk: "floorlog 2 n = Suc k" using fp by (simp add: k_def)
  from floorlog_bounds [of n 2] n1 have "2 ^ (floorlog 2 n - 1) \<le> n" "n < 2 ^ floorlog 2 n"
    by simp_all
  then have b: "2 ^ k \<le> n" "n < 2 ^ Suc k" by (simp_all add: fk)
  have fl: "floor_log2 x = int k" using True by (simp add: floor_log2_def n_def [symmetric] fk)
  have nx: "of_nat n \<le> x" using True by (simp add: n_def)
  have "(2::rat) ^ k = of_nat (2 ^ k)" by simp
  also have "\<dots> \<le> of_nat n" using b(1) by (simp only: of_nat_le_iff)
  finally have lo: "2 ^ k \<le> x" using nx by linarith
  have "x < of_int (\<lfloor>x\<rfloor> + 1)" by linarith
  also have "of_int (\<lfloor>x\<rfloor> + 1) = (of_nat (Suc n) :: rat)" using True by (simp add: n_def)
  also have "\<dots> \<le> of_nat (2 ^ Suc k)" using b(2) by (simp only: of_nat_le_iff Suc_le_eq)
  finally have hi: "x < 2 ^ Suc k" by simp
  show ?thesis using lo hi by (simp add: fl power_int_def nat_add_distrib)
next
  case False
  then have x1: "x < 1" by simp
  define n where "n = nat (\<lceil>1 / x\<rceil> - 1)"
  have "1 < 1 / x" using assms x1 by (simp add: field_simps)
  then have c2: "2 \<le> \<lceil>1 / x\<rceil>" by (simp add: le_ceiling_iff) 
  then have n1: "0 < n" by (simp add: n_def)
  define i where "i = floorlog 2 n - 1"
  have fp: "0 < floorlog 2 n" using n1 by (simp add: floorlog_def)
  have fi: "floorlog 2 n = Suc i" using fp by (simp add: i_def)
  from floorlog_bounds [of n 2] n1 have "2 ^ (floorlog 2 n - 1) \<le> n" "n < 2 ^ floorlog 2 n"
    by simp_all
  then have b: "2 ^ i \<le> n" "n < 2 ^ Suc i" by (simp_all add: fi)
  have fl: "floor_log2 x = - int (Suc i)" using False by (simp add: floor_log2_def n_def [symmetric] fi)
  have "0 \<le> \<lceil>1 / x\<rceil> - 1" using c2 by linarith
  then have nc: "int n = \<lceil>1 / x\<rceil> - 1" unfolding n_def by (rule nat_0_le)
  have "1 / x \<le> of_int \<lceil>1 / x\<rceil>" by linarith
  also have "of_int \<lceil>1 / x\<rceil> = (of_nat (Suc n) :: rat)" using nc by simp
  also have "\<dots> \<le> of_nat (2 ^ Suc i)" using b(2) by (simp only: of_nat_le_iff Suc_le_eq)
  finally have "1 / x \<le> 2 ^ Suc i" by simp
  then have lo: "1 / 2 ^ Suc i \<le> x" using assms by (simp add: field_simps)
  have "(2::rat) ^ i = of_nat (2 ^ i)" by simp
  also have "\<dots> \<le> of_nat n" using b(1) by (simp only: of_nat_le_iff)
  also have "(of_nat n :: rat) = of_int (\<lceil>1 / x\<rceil> - 1)" using nc by (metis of_int_of_nat_eq)
  also have "\<dots> < 1 / x" by linarith
  finally have "2 ^ i < 1 / x" .
  then have hi: "x < 1 / 2 ^ i" using assms by (simp add: field_simps)
  have e1: "(2::rat) powi (- int (Suc i)) = 1 / 2 ^ Suc i"
    by (simp only: power_int_minus power_int_of_nat inverse_eq_divide)
  have "- int (Suc i) + 1 = - int i" by simp
  then have e2: "(2::rat) powi (- int (Suc i) + 1) = 1 / 2 ^ i"
    by (simp only: power_int_minus power_int_of_nat inverse_eq_divide)
  show ?thesis using lo hi by (simp only: fl e1 e2)
qed

lemma round_half_even_le_ceiling: "round_half_even x \<le> \<lceil>x\<rceil>"
proof -
  have "x - of_int \<lfloor>x\<rfloor> = 0 \<or> \<lceil>x\<rceil> = \<lfloor>x\<rfloor> + 1"
    by (metis ceiling_altdef diff_eq_diff_eq diff_self eq_iff_diff_eq_0)
  then show ?thesis by (auto simp: round_half_even_def Let_def)
qed

lemma round_half_even_mono: "x \<le> y \<Longrightarrow> round_half_even x \<le> round_half_even y"
proof -
  assume xy: "x \<le> y"
  have fm: "\<lfloor>x\<rfloor> \<le> \<lfloor>y\<rfloor>" using xy by (rule floor_mono)
  show ?thesis
  proof (cases "\<lfloor>x\<rfloor> = \<lfloor>y\<rfloor>")
    case True
    then show ?thesis using xy by (auto simp: round_half_even_def Let_def)
  next
    case False
    then have "\<lfloor>x\<rfloor> + 1 \<le> \<lfloor>y\<rfloor>" using fm by linarith
    moreover have "round_half_even x \<le> \<lfloor>x\<rfloor> + 1" by (simp add: round_half_even_def Let_def)
    ultimately show ?thesis using round_half_even_ge_floor [of y] by linarith
  qed
qed

lemma round_binary64_zero: "round_binary64 0 = 0"
  by (simp add: round_binary64_def)

lemma round_binary64_nonneg: "0 \<le> x \<Longrightarrow> 0 \<le> round_binary64 x"
proof (cases "x = 0")
  case True
  then show ?thesis by (simp add: round_binary64_def)
next
  case False
  assume "0 \<le> x"
  define e where "e = max (floor_log2 \<bar>x\<bar> - 52) (- 1074)"
  have "0 \<le> x / 2 powi e" using \<open>0 \<le> x\<close> by simp
  then have "0 \<le> \<lfloor>x / 2 powi e\<rfloor>" by simp
  then have "0 \<le> round_half_even (x / 2 powi e)"
    using round_half_even_ge_floor [of "x / 2 powi e"] by linarith
  then show ?thesis using False by (simp add: round_binary64_def Let_def e_def [symmetric])
qed

lemma powi_quotient: "e \<le> j \<Longrightarrow> (2::rat) powi j / 2 powi e = of_int (2 ^ nat (j - e))"
proof -
  assume "e \<le> j"
  then have "0 \<le> j - e" by simp
  then have "(2::rat) powi (j - e) = 2 ^ nat (j - e)" by (simp add: power_int_def)
  moreover have "(2::rat) powi (j - e) = 2 powi j / 2 powi e" by (rule power_int_diff) simp
  ultimately show ?thesis by simp
qed

lemma powi_product: "e \<le> j \<Longrightarrow> (of_int (2 ^ nat (j - e)) :: rat) * 2 powi e = 2 powi j"
  using powi_quotient [of e j] by (simp add: field_simps)

text \<open>A power of two that is a floating-point number bounds the rounding from below.\<close>

lemma round_binary64_ge_power:
  assumes "2 powi j \<le> x" and "- 1074 \<le> j"
  shows "2 powi j \<le> round_binary64 x"
proof -
  have p: "(0::rat) < 2 powi j" by simp
  then have pos: "0 < x" using assms(1) by linarith
  define k where "k = floor_log2 x"
  define e where "e = max (k - 52) (- 1074)"
  have b: "2 powi k \<le> x" "x < 2 powi (k + 1)" using floor_log2_bounds [OF pos] by (simp_all add: k_def)
  have lt: "(2::rat) powi j < 2 powi (k + 1)" using assms(1) b(2) by linarith
  have jk: "j \<le> k"
  proof (rule ccontr)
    assume "\<not> j \<le> k"
    then have "k + 1 \<le> j" by simp
    then have "(2::rat) powi (k + 1) \<le> 2 powi j" by (rule power_int_increasing) simp
    with lt show False by linarith
  qed
  have ek: "e \<le> k" using jk assms(2) by (simp add: e_def)
  have "2 powi k / 2 powi e \<le> x / 2 powi e" using b(1) by (simp add: divide_right_mono)
  then have "of_int (2 ^ nat (k - e)) \<le> x / 2 powi e" by (simp only: powi_quotient [OF ek])
  then have "2 ^ nat (k - e) \<le> \<lfloor>x / 2 powi e\<rfloor>" by (simp only: le_floor_iff)
  then have "2 ^ nat (k - e) \<le> round_half_even (x / 2 powi e)"
    using round_half_even_ge_floor [of "x / 2 powi e"] by linarith
  then have "(of_int (2 ^ nat (k - e)) :: rat) \<le> of_int (round_half_even (x / 2 powi e))"
    by (simp only: of_int_le_iff)
  then have "of_int (2 ^ nat (k - e)) * (2::rat) powi e
      \<le> of_int (round_half_even (x / 2 powi e)) * 2 powi e"
    by (intro mult_right_mono) simp_all
  then have "(2::rat) powi k \<le> of_int (round_half_even (x / 2 powi e)) * 2 powi e"
    by (simp only: powi_product [OF ek])
  moreover have "round_binary64 x = of_int (round_half_even (x / 2 powi e)) * 2 powi e"
    using pos by (simp add: round_binary64_def Let_def e_def k_def)
  moreover have "(2::rat) powi j \<le> 2 powi k" using jk by (rule power_int_increasing) simp
  ultimately show ?thesis by linarith
qed

lemma round_binary64_le_power:
  assumes "0 \<le> x" and "x \<le> 2 powi j" and "- 1074 \<le> j"
  shows "round_binary64 x \<le> 2 powi j"
proof (cases "x = 0")
  case True
  then show ?thesis by (simp add: round_binary64_def)
next
  case False
  then have pos: "0 < x" using assms(1) by simp
  define k where "k = floor_log2 x"
  define e where "e = max (k - 52) (- 1074)"
  have b: "2 powi k \<le> x" "x < 2 powi (k + 1)" using floor_log2_bounds [OF pos] by (simp_all add: k_def)
  have "(2::rat) powi k \<le> 2 powi j" using assms(2) b(1) by linarith
  have kj: "k \<le> j"
  proof (rule ccontr)
    assume "\<not> k \<le> j"
    then have "j < k" by simp
    then have "(2::rat) powi j < 2 powi k" by (rule power_int_strict_increasing) simp
    with \<open>(2::rat) powi k \<le> 2 powi j\<close> show False by linarith
  qed
  have ej: "e \<le> j" using kj assms(3) by (simp add: e_def)
  have "x / 2 powi e \<le> 2 powi j / 2 powi e" using assms(2) by (simp add: divide_right_mono)
  moreover have "(2::rat) powi j / 2 powi e = of_int (2 ^ nat (j - e))"
    using ej by (rule powi_quotient)
  ultimately have "x / 2 powi e \<le> of_int (2 ^ nat (j - e))" by (simp only:)
  then have "\<lceil>x / 2 powi e\<rceil> \<le> 2 ^ nat (j - e)" by (simp only: ceiling_le_iff)
  then have "round_half_even (x / 2 powi e) \<le> 2 ^ nat (j - e)"
    using round_half_even_le_ceiling [of "x / 2 powi e"] by linarith
  then have "(of_int (round_half_even (x / 2 powi e)) :: rat) \<le> of_int (2 ^ nat (j - e))"
    by (simp only: of_int_le_iff)
  then have "of_int (round_half_even (x / 2 powi e)) * (2::rat) powi e
      \<le> of_int (2 ^ nat (j - e)) * 2 powi e"
    by (intro mult_right_mono) simp_all
  then have "of_int (round_half_even (x / 2 powi e)) * (2::rat) powi e \<le> 2 powi j"
    by (simp only: powi_product [OF ej])
  moreover have "round_binary64 x = of_int (round_half_even (x / 2 powi e)) * 2 powi e"
    using pos by (simp add: round_binary64_def Let_def e_def k_def)
  ultimately show ?thesis by linarith
qed

lemma powi_less_imp_less: "(2::rat) powi a < 2 powi b \<Longrightarrow> a < b"
proof (rule ccontr)
  assume lt: "(2::rat) powi a < 2 powi b" and "\<not> a < b"
  then have "b \<le> a" by simp
  then have "(2::rat) powi b \<le> 2 powi a" by (rule power_int_increasing) simp
  with lt show False by linarith
qed

lemma round_binary64_of_int:
  assumes "0 \<le> n" and "n < 2 ^ 53"
  shows "round_binary64 (of_int n) = of_int n"
proof (cases "n = 0")
  case True
  then show ?thesis by (simp add: round_binary64_def)
next
  case False
  then have pos: "(0::rat) < of_int n" using assms(1) by simp
  define k where "k = floor_log2 (of_int n)"
  have b: "2 powi k \<le> (of_int n :: rat)" "(of_int n :: rat) < 2 powi (k + 1)"
    using floor_log2_bounds [OF pos] by (simp_all add: k_def)
  have "(1::rat) \<le> of_int n" using False assms(1) by simp
  then have "(2::rat) powi 0 < 2 powi (k + 1)" using b(2) by simp
  then have k0: "0 \<le> k" using powi_less_imp_less [of 0 "k + 1"] by simp
  have "(of_int n :: rat) < of_int (2 ^ 53)" using assms(2) by (simp only: of_int_less_iff)
  then have "(of_int n :: rat) < 2 powi 53" by simp
  then have "(2::rat) powi k < 2 powi 53" using b(1) by linarith
  then have k52: "k \<le> 52" using powi_less_imp_less [of k 53] by simp
  define e where "e = k - 52"
  have e: "max (k - 52) (- 1074) = e" using k0 by (simp add: e_def)
  have e0: "e \<le> 0" using k52 by (simp add: e_def)
  have q: "(of_int n :: rat) / 2 powi e = of_int (n * 2 ^ nat (- e))"
    using e0 powi_quotient [of e 0] by (simp add: field_simps)
  have "round_binary64 (of_int n) = of_int (round_half_even (of_int n / 2 powi e)) * 2 powi e"
    using pos e by (simp add: round_binary64_def Let_def k_def)
  also have "\<dots> = of_int (n * 2 ^ nat (- e)) * 2 powi e"
    by (simp only: q round_half_even_of_int)
  also have "\<dots> = of_int n * (of_int (2 ^ nat (0 - e)) * 2 powi e)" by simp
  also have "\<dots> = of_int n" using powi_product [OF e0] by simp
  finally show ?thesis .
qed

lemma round_binary64_one: "round_binary64 1 = 1"
  using round_binary64_of_int [of 1] by simp

lemma round_binary64_mono:
  assumes "0 \<le> x" and "x \<le> y"
  shows "round_binary64 x \<le> round_binary64 y"
proof (cases "x = 0")
  case True
  then show ?thesis using round_binary64_nonneg [of y] assms by (simp add: round_binary64_zero)
next
  case False
  then have px: "0 < x" using assms(1) by simp
  then have py: "0 < y" using assms(2) by linarith
  define kx where "kx = floor_log2 x"
  define ky where "ky = floor_log2 y"
  define ex where "ex = max (kx - 52) (- 1074)"
  define ey where "ey = max (ky - 52) (- 1074)"
  have bx: "2 powi kx \<le> x" "x < 2 powi (kx + 1)" using floor_log2_bounds [OF px] by (simp_all add: kx_def)
  have by': "2 powi ky \<le> y" "y < 2 powi (ky + 1)" using floor_log2_bounds [OF py] by (simp_all add: ky_def)
  have rx: "round_binary64 x = of_int (round_half_even (x / 2 powi ex)) * 2 powi ex"
    using px by (simp add: round_binary64_def Let_def ex_def kx_def)
  have ry: "round_binary64 y = of_int (round_half_even (y / 2 powi ey)) * 2 powi ey"
    using py by (simp add: round_binary64_def Let_def ey_def ky_def)
  have lt: "(2::rat) powi kx < 2 powi (ky + 1)" using bx(1) by'(2) assms(2) by linarith
  have kk: "kx \<le> ky"
  proof (rule ccontr)
    assume "\<not> kx \<le> ky"
    then have "ky + 1 \<le> kx" by simp
    then have "(2::rat) powi (ky + 1) \<le> 2 powi kx" by (rule power_int_increasing) simp
    with lt show False by linarith
  qed
  show ?thesis
  proof (cases "ex = ey")
    case True
    have "x / 2 powi ey \<le> y / 2 powi ey" using assms(2) by (simp add: divide_right_mono)
    then have "round_half_even (x / 2 powi ey) \<le> round_half_even (y / 2 powi ey)"
      by (rule round_half_even_mono)
    then have "(of_int (round_half_even (x / 2 powi ey)) :: rat)
        \<le> of_int (round_half_even (y / 2 powi ey))" by (simp only: of_int_le_iff)
    then have "of_int (round_half_even (x / 2 powi ey)) * (2::rat) powi ey
        \<le> of_int (round_half_even (y / 2 powi ey)) * 2 powi ey"
      by (intro mult_right_mono) simp_all
    then show ?thesis using rx ry True by simp
  next
    case False
    then have k1: "kx < ky" and k2: "- 1074 \<le> ky" using kk by (auto simp: ex_def ey_def max_def split: if_splits)
    have "kx + 1 \<le> ky" using k1 by simp
    then have "(2::rat) powi (kx + 1) \<le> 2 powi ky" by (rule power_int_increasing) simp
    then have "x \<le> 2 powi ky" using bx(2) by linarith
    from round_binary64_le_power [OF assms(1) this k2] round_binary64_ge_power [OF by'(1) k2]
    show ?thesis by linarith
  qed
qed

section \<open>Lemmas on the progress bar\<close>

lemma true_div_nonneg:
  assumes "0 \<le> P" and "0 < L" and "P < 2 ^ 1023"
  shows "true_div P L = Inr (round_binary64 (of_int P / of_int L))
    \<and> 0 \<le> round_binary64 (of_int P / of_int L)"
proof -
  define x :: rat where "x = of_int P / of_int L"
  have x0: "0 \<le> x" using assms(1,2) by (simp add: x_def)
  have l1: "(1::rat) \<le> of_int L" using assms(2) by simp
  have p0: "(0::rat) \<le> of_int P" using assms(1) by simp
  have "of_int P * (1::rat) \<le> of_int P * of_int L" using l1 p0 by (rule mult_left_mono)
  then have "x \<le> of_int P" using l1 by (simp add: x_def field_simps)
  moreover have "(of_int P :: rat) \<le> of_int (2 ^ 1023)" using assms(3) by (simp only: of_int_le_iff less_imp_le)
  ultimately have "x \<le> 2 powi 1023" by simp
  from round_binary64_le_power [OF x0 this] have "round_binary64 x \<le> 2 powi 1023" by simp
  moreover have r0: "0 \<le> round_binary64 x" using x0 by (rule round_binary64_nonneg)
  ultimately have "\<bar>round_binary64 x\<bar> < 2 ^ 1024" by simp
  then show ?thesis using assms(2) r0 by (simp add: true_div_def in_range_small x_def)
qed

lemma progress_fraction_range:
  assumes "0 \<le> P" and "0 < L" and "P < 2 ^ 1023"
  shows "\<exists>pr. progress_fraction P L = Inr pr
    \<and> pr = min 1 (max 0 (round_binary64 (of_int P / of_int L)))
    \<and> 0 \<le> pr \<and> pr \<le> 1
    \<and> (L \<le> P \<longrightarrow> pr = 1) \<and> (P \<le> L \<longrightarrow> pr = round_binary64 (of_int P / of_int L))
    \<and> (P = 0 \<longrightarrow> pr = 0)"
proof -
  define q where "q = round_binary64 (of_int P / of_int L)"
  have td: "true_div P L = Inr q" and q0: "0 \<le> q"
    using true_div_nonneg [OF assms] by (simp_all add: q_def)
  have pf: "progress_fraction P L = Inr (min 1 (max 0 q))"
    using assms(2) td by (simp add: progress_fraction_def bind_err_def)
  have full: "L \<le> P \<longrightarrow> min 1 (max 0 q) = 1"
  proof
    assume "L \<le> P"
    then have "(1::rat) \<le> of_int P / of_int L" using assms(2) by (simp add: field_simps)
    then have "(2::rat) powi 0 \<le> of_int P / of_int L" by simp
    from round_binary64_ge_power [OF this] have "1 \<le> q" by (simp add: q_def)
    then show "min 1 (max 0 q) = 1" by simp
  qed
  have part: "P \<le> L \<longrightarrow> min 1 (max 0 q) = q"
  proof
    assume "P \<le> L"
    then have le: "of_int P / of_int L \<le> (1::rat)" using assms(2) by (simp add: field_simps)
    have "(0::rat) \<le> of_int P / of_int L" using assms(1,2) by simp
    from round_binary64_mono [OF this le] have "q \<le> 1" by (simp add: q_def round_binary64_one)
    then show "min 1 (max 0 q) = q" using q0 by simp
  qed
  have zero: "P = 0 \<longrightarrow> min 1 (max 0 q) = 0" by (simp add: q_def round_binary64_zero)
  show ?thesis using pf full part zero by (auto simp: q_def)
qed

lemma int_of_product_bar:
  assumes "0 \<le> bw" and "bw < 2 ^ 53" and "0 \<le> pr" and "pr \<le> 1"
  shows "\<exists>fw. int_of_product bw pr = Inr fw
    \<and> fw = \<lfloor>round_binary64 (of_int bw * pr)\<rfloor> \<and> 0 \<le> fw \<and> fw \<le> bw
    \<and> (pr = 1 \<longrightarrow> fw = bw) \<and> (pr = 0 \<longrightarrow> fw = 0)"
proof -
  have rb: "round_binary64 (of_int bw) = of_int bw" by (rule round_binary64_of_int [OF assms(1,2)])
  have "(of_int bw :: rat) < of_int (2 ^ 53)" using assms(2) by (simp only: of_int_less_iff)
  then have b53: "(of_int bw :: rat) < 2 ^ 53" by simp
  have b0: "(0::rat) \<le> of_int bw" using assms(1) by simp
  have "(2::rat) ^ 53 < 2 ^ 1024" by simp
  then have "\<bar>of_int bw :: rat\<bar> < 2 ^ 1024" using b53 b0 by linarith
  then have ir1: "in_range (of_int bw) = Inr (of_int bw)" by (rule in_range_small)
  define x where "x = of_int bw * pr"
  have x0: "0 \<le> x" using b0 assms(3) by (simp add: x_def)
  have xb: "x \<le> of_int bw" using b0 assms(4) by (simp add: x_def mult_left_le)
  have r0: "0 \<le> round_binary64 x" using x0 by (rule round_binary64_nonneg)
  have rle: "round_binary64 x \<le> of_int bw" using round_binary64_mono [OF x0 xb] by (simp add: rb)
  have "\<bar>round_binary64 x\<bar> < 2 ^ 1024" using r0 rle b53 \<open>(2::rat) ^ 53 < 2 ^ 1024\<close> by linarith
  then have ir2: "in_range (round_binary64 x) = Inr (round_binary64 x)" by (rule in_range_small)
  have ip: "int_of_product bw pr = Inr \<lfloor>round_binary64 x\<rfloor>"
    using r0 by (simp add: int_of_product_def bind_err_def rb ir1 ir2 x_def [symmetric] int_of_float_def)
  have f0: "0 \<le> \<lfloor>round_binary64 x\<rfloor>" using r0 by simp
  have fb: "\<lfloor>round_binary64 x\<rfloor> \<le> bw" using rle by (simp add: floor_le_iff)
  have one: "pr = 1 \<longrightarrow> \<lfloor>round_binary64 x\<rfloor> = bw" by (simp add: x_def rb)
  have zero: "pr = 0 \<longrightarrow> \<lfloor>round_binary64 x\<rfloor> = 0" by (simp add: x_def round_binary64_zero)
  show ?thesis using ip f0 fb one zero by (simp add: x_def)
qed

section \<open>The update decision\<close>

text \<open>
  C1. The update decision follows the five-case table: both snapshots absent gives false;
  exactly one absent gives true; both present gives true when title, artist or status
  differ, true when nothing differs but the current status is Playing, and false
  otherwise. Two identical Paused snapshots give false, two identical Playing snapshots
  give true.
\<close>

theorem should_update_truth_table:
  "should_update None None = False
   \<and> should_update None (Some c) = True
   \<and> should_update (Some p) None = True
   \<and> should_update (Some p) (Some c) =
       (get_item c ''title'' \<noteq> get_item p ''title''
        \<or> get_item c ''artist'' \<noteq> get_item p ''artist''
        \<or> get_item c ''status'' \<noteq> get_item p ''status''
        \<or> get_item c ''status'' = Some (PStr ''Playing''))
   \<and> should_update (Some (snapshot ''A'' ''X'' al l1 p1 ''Paused'' u))
         (Some (snapshot ''A'' ''X'' al l1 p1 ''Paused'' u)) = False
   \<and> should_update (Some (snapshot ''A'' ''X'' al l1 p1 ''Playing'' u))
         (Some (snapshot ''A'' ''X'' al l1 p1 ''Playing'' u)) = True"
  by (auto simp add: snapshot_def get_item_def)

theorem should_update_truth_table_witness:
  "should_update (Some (snapshot ''A'' ''X'' ''B'' 10 3 ''Paused'' ''''))
     (Some (snapshot ''A'' ''Y'' ''B'' 10 3 ''Paused'' '''')) = True
   \<and> should_update (Some (snapshot ''A'' ''X'' ''B'' 10 3 ''Paused'' ''''))
     (Some (snapshot ''A'' ''X'' ''B'' 10 3 ''Stopped'' '''')) = True
   \<and> should_update (Some (snapshot ''A'' ''X'' ''B'' 10 3 ''Paused'' ''''))
     (Some (snapshot ''A'' ''X'' ''B'' 10 7 ''Paused'' '''')) = False"
  using should_update_truth_table [of "snapshot ''A'' ''Y'' ''B'' 10 3 ''Paused'' ''''"
      "snapshot ''A'' ''X'' ''B'' 10 3 ''Paused'' ''''"]
    should_update_truth_table [of "snapshot ''A'' ''X'' ''B'' 10 3 ''Stopped'' ''''"
      "snapshot ''A'' ''X'' ''B'' 10 3 ''Paused'' ''''"]
    should_update_truth_table [of "snapshot ''A'' ''X'' ''B'' 10 7 ''Paused'' ''''"
      "snapshot ''A'' ''X'' ''B'' 10 3 ''Paused'' ''''"]
  by (simp add: snapshot_def get_item_def)

text \<open>
  C9. The decision reads only presence and the title, artist and status entries: two
  pairs of present snapshots that agree on these three entries get the same decision,
  and when the three entries are unchanged and the status is not Playing the decision is
  false whatever album, position, length and art_url are.
\<close>

theorem should_update_noninterference:
  "(get_item p ''title'' = get_item p' ''title'' \<and> get_item p ''artist'' = get_item p' ''artist''
     \<and> get_item p ''status'' = get_item p' ''status''
     \<and> get_item c ''title'' = get_item c' ''title'' \<and> get_item c ''artist'' = get_item c' ''artist''
     \<and> get_item c ''status'' = get_item c' ''status''
     \<longrightarrow> should_update (Some p) (Some c) = should_update (Some p') (Some c'))
   \<and> (get_item c ''title'' = get_item p ''title'' \<and> get_item c ''artist'' = get_item p ''artist''
     \<and> get_item c ''status'' = get_item p ''status''
     \<and> get_item c ''status'' \<noteq> Some (PStr ''Playing'')
     \<longrightarrow> should_update (Some p) (Some c) = False)"
  by simp

theorem should_update_noninterference_witness:
  "should_update (Some (snapshot ''A'' ''X'' ''B'' 10 3 ''Paused'' ''''))
     (Some (snapshot ''A'' ''X'' ''C'' 99 7 ''Paused'' ''u'')) = False
   \<and> should_update (Some (snapshot ''A'' ''X'' ''B'' 10 3 ''Playing'' ''''))
       (Some (snapshot ''A'' ''X'' ''C'' 99 7 ''Playing'' ''u''))
     = should_update (Some (snapshot ''A'' ''X'' ''D'' 1 2 ''Playing'' ''v''))
       (Some (snapshot ''A'' ''X'' ''E'' 5 6 ''Playing'' ''w''))"
  using should_update_noninterference [of "snapshot ''A'' ''X'' ''B'' 10 3 ''Paused'' ''''"
      "snapshot ''A'' ''X'' ''B'' 10 3 ''Paused'' ''''"
      "snapshot ''A'' ''X'' ''C'' 99 7 ''Paused'' ''u''"
      "snapshot ''A'' ''X'' ''C'' 99 7 ''Paused'' ''u''"]
    should_update_noninterference [of "snapshot ''A'' ''X'' ''B'' 10 3 ''Playing'' ''''"
      "snapshot ''A'' ''X'' ''D'' 1 2 ''Playing'' ''v''"
      "snapshot ''A'' ''X'' ''C'' 99 7 ''Playing'' ''u''"
      "snapshot ''A'' ''X'' ''E'' 5 6 ''Playing'' ''w''"]
  by (simp add: snapshot_def get_item_def)

section \<open>Text wrapping\<close>

lemma py_split_blank: "\<forall>c \<in> set text. is_space c \<Longrightarrow> py_split text = []"
  by (rule py_split_stop) simp

lemma py_split_single: "word_ok w \<Longrightarrow> py_split w = [w]"
  using py_split_word_append [of w "[]"] by (simp add: py_split_Nil)

text \<open>
  C4. Wrapping never drops words: the words of the returned lines, concatenated in order,
  are the words of the input, for every metric and every width; and a single word wider
  than the width is returned as a line of its own.
\<close>

theorem wrap_text_keeps_words:
  "concat (map py_split (wrap_text textbbox text f max_width)) = py_split text
   \<and> (word_ok w \<and> max_width < text_width textbbox f w
        \<longrightarrow> wrap_text textbbox w f max_width = [w])"
proof
  show "concat (map py_split (wrap_text textbbox text f max_width)) = py_split text"
    by (rule wrap_text_words)
next
  show "word_ok w \<and> max_width < text_width textbbox f w
        \<longrightarrow> wrap_text textbbox w f max_width = [w]"
  proof
    assume h: "word_ok w \<and> max_width < text_width textbbox f w"
    then have "w \<noteq> []" by (simp add: word_ok_def)
    then show "wrap_text textbbox w f max_width = [w]"
      using h by (simp add: wrap_text_def py_split_single)
  qed
qed

theorem wrap_text_keeps_words_witness:
  "concat (map py_split (wrap_text fixed_metric ''ab  cd efgh'' font_large 30))
     = [''ab'', ''cd'', ''efgh'']
   \<and> wrap_text fixed_metric ''abcdefgh'' font_large 30 = [''abcdefgh'']"
  using wrap_text_keeps_words [of fixed_metric "''ab  cd efgh''" font_large 30 "''abcdefgh''"]
  by (simp add: py_split.simps is_space_def word_ok_def text_width_def fixed_metric_def)

text \<open>
  C6. An empty or whitespace-only input gives exactly one line, the empty string, and the
  result is never the empty list.
\<close>

theorem wrap_text_blank:
  "((\<forall>c \<in> set text. is_space c) \<longrightarrow> wrap_text textbbox text f max_width = [[]])
   \<and> wrap_text textbbox text' f max_width \<noteq> []"
proof
  show "(\<forall>c \<in> set text. is_space c) \<longrightarrow> wrap_text textbbox text f max_width = [[]]"
    by (simp add: wrap_text_def py_split_blank)
next
  show "wrap_text textbbox text' f max_width \<noteq> []"
    by (simp add: wrap_text_def Let_def split: prod.splits)
qed

theorem wrap_text_blank_witness:
  "wrap_text fixed_metric [CHR '' '', CHR 0x09, CHR '' ''] font_medium 240 = [[]]
   \<and> wrap_text fixed_metric [] font_medium 240 = [[]]
   \<and> wrap_text fixed_metric ''ab'' font_medium 240 \<noteq> []"
  using wrap_text_blank [of "[CHR '' '', CHR 0x09, CHR '' '']" fixed_metric font_medium 240 "''ab''"]
    wrap_text_blank [of "[]" fixed_metric font_medium 240 "''ab''"]
  by (simp add: is_space_def)

lemma wrap_loop_all_fit:
  "\<forall>k. 0 < k \<and> k \<le> length words \<longrightarrow> width (join_space (current_line @ take k words)) \<le> max_width
   \<Longrightarrow> wrap_loop width max_width words lines current_line = (lines, current_line @ words)"
proof (induction words arbitrary: current_line)
  case Nil
  then show ?case by simp
next
  case (Cons word words)
  have first: "width (join_space (current_line @ [word])) \<le> max_width"
    using Cons.prems [rule_format, of 1] by simp
  have rest: "\<forall>k. 0 < k \<and> k \<le> length words
      \<longrightarrow> width (join_space ((current_line @ [word]) @ take k words)) \<le> max_width"
  proof (intro allI impI)
    fix k assume "0 < k \<and> k \<le> length words"
    then show "width (join_space ((current_line @ [word]) @ take k words)) \<le> max_width"
      using Cons.prems [rule_format, of "Suc k"] by simp
  qed
  from Cons.IH [OF rest] first show ?case by simp
qed

lemma py_split_leading: "\<forall>c \<in> set pre. is_space c \<Longrightarrow> py_split (pre @ s) = py_split s"
  by (induction pre) (simp_all add: py_split_space_Cons)

lemma py_split_join_trailing:
  "\<forall>w \<in> set ws. word_ok w \<Longrightarrow> \<forall>c \<in> set post. is_space c
   \<Longrightarrow> py_split (join_space ws @ post) = ws"
proof (induction ws rule: join_space.induct)
  case 1
  then show ?case by (simp add: py_split_blank)
next
  case (2 w)
  then have w: "word_ok w" by simp
  have "post = [] \<or> is_space (hd post)" using "2.prems"(2) by (cases post) simp_all
  from py_split_word_append [OF w this] "2.prems"(2) show ?case by (simp add: py_split_blank)
next
  case (3 w v ws)
  then have w: "word_ok w" and IH: "py_split (join_space (v # ws) @ post) = v # ws" by simp_all
  have "py_split (w @ CHR '' '' # (join_space (v # ws) @ post))
      = w # py_split (CHR '' '' # (join_space (v # ws) @ post))"
    using py_split_word_append [OF w, of "CHR '' '' # (join_space (v # ws) @ post)"] is_space_blank
    by simp
  also have "py_split (CHR '' '' # (join_space (v # ws) @ post)) = py_split (join_space (v # ws) @ post)"
    by (rule py_split_space_Cons [OF is_space_blank])
  finally show ?case using IH by simp
qed

lemma join_space_ends:
  "\<forall>w \<in> set ws. word_ok w \<Longrightarrow> ws \<noteq> []
   \<Longrightarrow> join_space ws \<noteq> [] \<and> \<not> is_space (hd (join_space ws)) \<and> \<not> is_space (last (join_space ws))"
proof (induction ws rule: join_space.induct)
  case 1
  then show ?case by simp
next
  case (2 w)
  then show ?case by (cases w) (auto simp: word_ok_def)
next
  case (3 w v ws)
  then have "word_ok w" and "join_space (v # ws) \<noteq> []"
    and "\<not> is_space (last (join_space (v # ws)))" by simp_all
  then show ?case by (cases w) (auto simp: word_ok_def)
qed

lemma py_strip_padded:
  assumes "t = [] \<or> (\<not> is_space (hd t) \<and> \<not> is_space (last t))"
    and "\<forall>c \<in> set pre. is_space c" and "\<forall>c \<in> set post. is_space c"
  shows "py_strip (pre @ t @ post) = t"
proof (cases "t = []")
  case True
  have a: "dropWhile is_space (pre @ post) = []" using assms(2,3) by simp
  show ?thesis by (simp add: py_strip_def True a)
next
  case False
  then obtain c cs where t: "t = c # cs" by (cases t) auto
  then have c: "\<not> is_space c" using assms(1) by simp
  have l: "\<not> is_space (last t)" using assms(1) False by simp
  have d1: "dropWhile is_space (pre @ t @ post) = t @ post"
    using assms(2) c t by (simp add: dropWhile_append3)
  obtain d ds where r: "rev t = d # ds" using False by (cases "rev t") auto
  then have "d = last t" using False by (metis last_rev list.sel(1) rev_rev_ident hd_rev)
  then have d: "\<not> is_space d" using l by simp
  have "dropWhile is_space (rev post @ rev t) = rev t"
    using assms(3) d r by (simp add: dropWhile_append3)
  then show ?thesis using d1 by (simp add: py_strip_def)
qed

text \<open>
  C5 as stated fails: a string that fits is returned with every run of whitespace between
  two words replaced by one space, which is not the trimmed input.
\<close>

theorem wrap_text_trimmed_counterexample:
  "text_width fixed_metric font_large ''a  b'' \<le> 100
   \<and> wrap_text fixed_metric ''a  b'' font_large 100 \<noteq> [py_strip ''a  b'']"
  by (simp add: wrap_text_def py_split.simps is_space_def text_width_def fixed_metric_def
      py_strip_def)

text \<open>
  C5, amended. The function measures the lines it builds, never the input: when every
  line-so-far (the first \<open>k\<close> words joined by single spaces) is at most \<open>max_width\<close> wide,
  the result is exactly one line, the words of the input joined by single spaces. That
  line is the trimmed input when the words of the input are separated by single spaces.
\<close>

theorem wrap_text_single_line:
  assumes "\<forall>k. 0 < k \<and> k \<le> length (py_split text)
      \<longrightarrow> text_width textbbox f (join_space (take k (py_split text))) \<le> max_width"
  shows "wrap_text textbbox text f max_width = [join_space (py_split text)]
    \<and> (text = pre @ join_space ws @ post \<and> (\<forall>c \<in> set pre. is_space c)
         \<and> (\<forall>c \<in> set post. is_space c) \<and> (\<forall>w \<in> set ws. word_ok w)
       \<longrightarrow> join_space (py_split text) = py_strip text)"
proof
  have "\<forall>k. 0 < k \<and> k \<le> length (py_split text)
      \<longrightarrow> text_width textbbox f (join_space ([] @ take k (py_split text))) \<le> max_width"
    using assms by simp
  from wrap_loop_all_fit [OF this]
  have loop: "wrap_loop (text_width textbbox f) max_width (py_split text) [] [] = ([], py_split text)"
    by simp
  show "wrap_text textbbox text f max_width = [join_space (py_split text)]"
  proof (cases "text = []")
    case True
    then show ?thesis by (simp add: wrap_text_def py_split_Nil)
  next
    case False
    then show ?thesis using loop by (cases "py_split text = []") (simp_all add: wrap_text_def)
  qed
next
  show "text = pre @ join_space ws @ post \<and> (\<forall>c \<in> set pre. is_space c)
         \<and> (\<forall>c \<in> set post. is_space c) \<and> (\<forall>w \<in> set ws. word_ok w)
       \<longrightarrow> join_space (py_split text) = py_strip text"
  proof
    assume h: "text = pre @ join_space ws @ post \<and> (\<forall>c \<in> set pre. is_space c)
         \<and> (\<forall>c \<in> set post. is_space c) \<and> (\<forall>w \<in> set ws. word_ok w)"
    then have sp: "py_split text = ws"
      using py_split_leading [of pre "join_space ws @ post"] py_split_join_trailing [of ws post]
      by simp
    have "join_space ws = [] \<or> (\<not> is_space (hd (join_space ws)) \<and> \<not> is_space (last (join_space ws)))"
      using join_space_ends [of ws] h by (cases "ws = []") simp_all
    from py_strip_padded [OF this] h have "py_strip text = join_space ws" by simp
    then show "join_space (py_split text) = py_strip text" using sp by simp
  qed
qed

theorem wrap_text_single_line_witness:
  "wrap_text fixed_metric '' ab cd  '' font_large 100 = [''ab cd'']
   \<and> py_strip '' ab cd  '' = ''ab cd''"
proof -
  have sp: "py_split '' ab cd  '' = [''ab'', ''cd'']"
    by (simp add: py_split.simps is_space_def)
  have h: "\<forall>k. 0 < k \<and> k \<le> length (py_split '' ab cd  '')
      \<longrightarrow> text_width fixed_metric font_large (join_space (take k (py_split '' ab cd  ''))) \<le> 100"
  proof (intro allI impI)
    fix k :: nat
    assume "0 < k \<and> k \<le> length (py_split '' ab cd  '')"
    then have "k = 1 \<or> k = 2" by (simp add: sp) arith
    then show "text_width fixed_metric font_large (join_space (take k (py_split '' ab cd  ''))) \<le> 100"
      by (auto simp: sp text_width_def fixed_metric_def)
  qed
  have p: "'' ab cd  '' = '' '' @ join_space [''ab'', ''cd''] @ ''  ''
      \<and> (\<forall>c \<in> set '' ''. is_space c) \<and> (\<forall>c \<in> set ''  ''. is_space c)
      \<and> (\<forall>w \<in> set [''ab'', ''cd'']. word_ok w)"
    by (simp add: is_space_def word_ok_def)
  note t = wrap_text_single_line [OF h, where pre = "'' ''" and ws = "[''ab'', ''cd'']"
      and post = "''  ''"]
  from t have one: "wrap_text fixed_metric '' ab cd  '' font_large 100
      = [join_space (py_split '' ab cd  '')]" by (rule conjunct1)
  from t p have "join_space (py_split '' ab cd  '') = py_strip '' ab cd  ''" by blast
  then have "py_strip '' ab cd  '' = ''ab cd''" by (simp only: sp join_space.simps append.simps)
  moreover have "wrap_text fixed_metric '' ab cd  '' font_large 100 = [''ab cd'']"
    using one by (simp only: sp join_space.simps append.simps)
  ultimately show ?thesis by (rule conjI [rotated])
qed

section \<open>Time formatting and the poll loop\<close>

lemma dec_str_digit: "n < 10 \<Longrightarrow> dec_str n = [digit_char n]"
  by (subst dec_str.simps) simp

lemma dec_str_two_digits:
  "10 \<le> n \<Longrightarrow> n < 100 \<Longrightarrow> dec_str n = [digit_char (n div 10), digit_char (n mod 10)]"
  by (subst dec_str.simps) (simp add: dec_str_digit)

lemma digit_char_zero: "digit_char 0 = CHR ''0''"
  by (simp add: digit_char_def)

lemma format_02d_two_digits:
  assumes "0 \<le> n" and "n < 100"
  shows "format_02d n = [digit_char (nat n div 10), digit_char (nat n mod 10)]"
proof (cases "n < 10")
  case True
  then have "nat n < 10" using assms by simp
  then show ?thesis using assms by (simp add: format_02d_def dec_str_digit digit_char_zero)
next
  case False
  then have "10 \<le> nat n" and "nat n < 100" using assms by simp_all
  then show ?thesis using assms by (simp add: format_02d_def dec_str_two_digits)
qed

lemma round_20_59: "round_binary64 (20 / 59) = 381660985370381 / 1125899906842624"
  using round_binary64_certificate [of "- 2" "20 / 59" "- 54" 6106575765926096]
  by (simp add: power_int_minus)

lemma round_240: "round_binary64 240 = 240"
  using round_binary64_certificate [of 7 240 "- 45" 8444249301319680]
  by (simp add: power_int_minus)

lemma round_fill_81:
  "round_binary64 (5724914780555715 / 70368744177664) = 5724914780555715 / 70368744177664"
  using round_binary64_certificate [of 6 "5724914780555715 / 70368744177664" "- 46" 5724914780555715]
  by (simp add: power_int_minus)

lemma true_div_scenario: "true_div 120 354 = Inr (381660985370381 / 1125899906842624)"
  by (simp add: true_div_def round_20_59 in_range_small)

lemma progress_fraction_scenario:
  "progress_fraction 120 354 = Inr (381660985370381 / 1125899906842624)"
  by (simp add: progress_fraction_def true_div_scenario bind_err_def)

lemma floor_fill_81: "\<lfloor>5724914780555715 / 70368744177664 :: rat\<rfloor> = 81"
  by (rule floor_unique) simp_all

lemma int_of_product_scenario:
  "int_of_product 240 (381660985370381 / 1125899906842624) = Inr 81"
  by (simp add: int_of_product_def bind_err_def round_240 round_fill_81 in_range_small
      int_of_float_def floor_fill_81)

lemma draw_progress_scenario:
  "draw_progress default_config 5 120 354 =
     Inr [DrawRect (5, 87, 245, 97) (Some ''black'') (Some ''white''),
          DrawRect (5, 87, 86, 97) None (Some ''black''),
          DrawText (5, 99) (format_time 120 @ '' / '' @ format_time 354) ''black'' font_small]"
  by (simp add: draw_progress_def default_config_def progress_fraction_scenario bind_err_def
      int_of_product_scenario)

lemma format_time_scenario: "format_time 120 = ''02:00'' \<and> format_time 354 = ''05:54''"
  by (simp add: format_time_def format_02d_two_digits digit_char_def)

lemma draw_lines_text: "draw_lines m a f y ls = (r, y') \<Longrightarrow> op \<in> set r \<Longrightarrow> \<not> is_rect op"
  by (induction ls arbitrary: y r y') (auto split: prod.splits)

lemma draw_header_strings:
  assumes "get_default md ''title'' (PStr ''Unknown Title'') = PStr t"
    and "get_default md ''artist'' (PStr ''Unknown Artist'') = PStr a"
    and "get_default md ''album'' (PStr ''Unknown Album'') = PStr b"
  shows "\<exists>head. draw_header textbbox cfg md = Inr head"
  using assms by (simp add: draw_header_def wrap_value_def bind_err_def Let_def split: prod.splits)

text \<open>
  C7. For a non-negative number of seconds the result is the minutes \<open>seconds div 60\<close> and
  the seconds \<open>seconds mod 60\<close>, each in the format \<open>02d\<close>, with a colon between them; up
  to 99 minutes these are the four decimal digits. For a snapshot with a length of
  354000000 and a position of 120000000 microseconds the frame ends with the bar and the
  label \<open>02:00 / 05:54\<close>.
\<close>

theorem format_time_mm_ss:
  "(0 \<le> s \<longrightarrow> format_time s = format_02d (s div 60) @ '':'' @ format_02d (s mod 60))
   \<and> (0 \<le> s \<and> s < 6000 \<longrightarrow>
        format_time s = [digit_char (nat (s div 600)), digit_char (nat (s div 60 mod 10)),
          CHR '':'', digit_char (nat (s mod 60 div 10)), digit_char (nat (s mod 10))])
   \<and> (\<exists>head. update_display textbbox default_config
          (snapshot title artist album 354000000 120000000 status art_url)
        = Inr \<lparr>mode = ''RGB'', frame_size = (250, 122),
               ops = head @ [DrawRect (5, 87, 245, 97) (Some ''black'') (Some ''white''),
                      DrawRect (5, 87, 86, 97) None (Some ''black''),
                      DrawText (5, 99) ''02:00 / 05:54'' ''black'' font_small]\<rparr>)"
proof (intro conjI impI)
  show "format_time s = format_02d (s div 60) @ '':'' @ format_02d (s mod 60)"
    by (simp add: format_time_def)
next
  assume h: "0 \<le> s \<and> s < 6000"
  then have m: "0 \<le> s div 60" "s div 60 < 100" by arith+
  have r: "0 \<le> s mod 60" "s mod 60 < 100" by arith+
  have a: "nat (s div 60) div 10 = nat (s div 600)"
    using h by (simp add: nat_div_distrib [symmetric] zdiv_zmult2_eq [symmetric])
  have b: "nat (s div 60) mod 10 = nat (s div 60 mod 10)"
    using m by (simp add: nat_mod_distrib)
  have c: "nat (s mod 60) div 10 = nat (s mod 60 div 10)"
    using r by (simp add: nat_div_distrib)
  have "s mod 60 mod 10 = s mod 10" by (simp add: mod_mod_cancel)
  moreover have "nat (s mod 60 mod 10) = nat (s mod 60) mod nat 10"
    using r by (intro nat_mod_distrib) simp_all
  ultimately have d: "nat (s mod 60) mod 10 = nat (s mod 10)" by simp
  show "format_time s = [digit_char (nat (s div 600)), digit_char (nat (s div 60 mod 10)),
          CHR '':'', digit_char (nat (s mod 60 div 10)), digit_char (nat (s mod 10))]"
    by (simp add: format_time_def format_02d_two_digits [OF m] format_02d_two_digits [OF r] a b c d)
next
  let ?md = "snapshot title artist album 354000000 120000000 status art_url"
  obtain head where head: "draw_header textbbox default_config ?md = Inr head"
    using draw_header_strings [of ?md title artist album textbbox default_config]
    by (auto simp: snapshot_def get_default_def)
  have "update_display textbbox default_config ?md
      = Inr \<lparr>mode = ''RGB'', frame_size = (250, 122),
               ops = head @ [DrawRect (5, 87, 245, 97) (Some ''black'') (Some ''white''),
                      DrawRect (5, 87, 86, 97) None (Some ''black''),
                      DrawText (5, 99) ''02:00 / 05:54'' ''black'' font_small]\<rparr>"
    using head draw_progress_scenario format_time_scenario
    by (simp add: update_display_def floordiv_value_def bind_err_def new_image_def
        default_config_def snapshot_def get_default_def)
  then show "\<exists>head. update_display textbbox default_config ?md
      = Inr \<lparr>mode = ''RGB'', frame_size = (250, 122),
               ops = head @ [DrawRect (5, 87, 245, 97) (Some ''black'') (Some ''white''),
                      DrawRect (5, 87, 86, 97) None (Some ''black''),
                      DrawText (5, 99) ''02:00 / 05:54'' ''black'' font_small]\<rparr>"
    by blast
qed

theorem format_time_mm_ss_witness:
  "format_time 354 = format_02d 5 @ '':'' @ format_02d 54 \<and> format_time 354 = ''05:54''"
  using format_time_mm_ss [of 354]
  by (simp add: digit_char_def format_02d_two_digits)

text \<open>
  C8. From an absent remembered snapshot, the snapshots \<open>[Some track, None, None]\<close> give
  exactly two frames, the playing view of the track and then the idle view; the third
  tick displays nothing. The track is any non-empty snapshot that renders.
\<close>

theorem idle_transition:
  "update_display textbbox cfg track = Inr playing \<and> track \<noteq> [] \<longrightarrow>
     update_loop textbbox cfg initial_app [Some track, None, None]
       = \<lparr>last_metadata = None, displayed = [playing, show_idle textbbox cfg]\<rparr>
     \<and> update_loop textbbox cfg initial_app [Some track, None]
       = update_loop textbbox cfg initial_app [Some track, None, None]
     \<and> displayed (update_loop textbbox cfg initial_app [Some track]) = [playing]"
  by (simp add: update_loop_def tick_def initial_app_def)

lemma update_display_track:
  "update_display fixed_metric default_config
     (snapshot ''T'' ''Q'' ''A'' 354000000 120000000 ''Playing'' [])
   = Inr \<lparr>mode = ''RGB'', frame_size = (250, 122),
       ops = [DrawIcon (5, 5) play_icon ''black'' font_medium,
              DrawText (5, 30) ''T'' ''black'' font_large,
              DrawText (5, 55) ''Q'' ''black'' font_medium,
              DrawText (5, 75) ''A'' ''black'' font_small,
              DrawRect (5, 87, 245, 97) (Some ''black'') (Some ''white''),
              DrawRect (5, 87, 86, 97) None (Some ''black''),
              DrawText (5, 99) ''02:00 / 05:54'' ''black'' font_small]\<rparr>"
  using draw_progress_scenario format_time_scenario
  by (simp add: update_display_def floordiv_value_def bind_err_def new_image_def
      default_config_def snapshot_def get_default_def draw_header_def wrap_value_def
      wrap_text_def py_split.simps is_space_def text_width_def fixed_metric_def)

theorem idle_transition_witness:
  "update_loop fixed_metric default_config initial_app
     [Some (snapshot ''T'' ''Q'' ''A'' 354000000 120000000 ''Playing'' []), None, None]
   = \<lparr>last_metadata = None,
      displayed =
        [\<lparr>mode = ''RGB'', frame_size = (250, 122),
           ops = [DrawIcon (5, 5) play_icon ''black'' font_medium,
                  DrawText (5, 30) ''T'' ''black'' font_large,
                  DrawText (5, 55) ''Q'' ''black'' font_medium,
                  DrawText (5, 75) ''A'' ''black'' font_small,
                  DrawRect (5, 87, 245, 97) (Some ''black'') (Some ''white''),
                  DrawRect (5, 87, 86, 97) None (Some ''black''),
                  DrawText (5, 99) ''02:00 / 05:54'' ''black'' font_small]\<rparr>,
         \<lparr>mode = ''RGB'', frame_size = (250, 122),
           ops = [DrawText (77, 55) ''No music playing'' ''black'' font_medium]\<rparr>]\<rparr>"
proof -
  let ?t = "snapshot ''T'' ''Q'' ''A'' 354000000 120000000 ''Playing'' []"
  let ?f = "\<lparr>mode = ''RGB'', frame_size = (250, 122),
           ops = [DrawIcon (5, 5) play_icon ''black'' font_medium,
                  DrawText (5, 30) ''T'' ''black'' font_large,
                  DrawText (5, 55) ''Q'' ''black'' font_medium,
                  DrawText (5, 75) ''A'' ''black'' font_small,
                  DrawRect (5, 87, 245, 97) (Some ''black'') (Some ''white''),
                  DrawRect (5, 87, 86, 97) None (Some ''black''),
                  DrawText (5, 99) ''02:00 / 05:54'' ''black'' font_small]\<rparr>"
  have ne: "?t \<noteq> []" by (simp add: snapshot_def)
  have "update_display fixed_metric default_config ?t = Inr ?f \<and> ?t \<noteq> []"
    using update_display_track ne by (rule conjI)
  with idle_transition [of fixed_metric default_config ?t ?f]
  have "update_loop fixed_metric default_config initial_app [Some ?t, None, None]
      = \<lparr>last_metadata = None, displayed = [?f, show_idle fixed_metric default_config]\<rparr>"
    by blast
  then show ?thesis
    by (simp add: show_idle_def new_image_def default_config_def fixed_metric_def)
qed

section \<open>Rendering\<close>

lemma update_display_unfold:
  assumes "get_default md ''position'' (PInt 0) = PInt p"
    and "get_default md ''length'' (PInt 0) = PInt l"
  shows "update_display textbbox cfg md =
     bind_err (draw_header textbbox cfg md) (\<lambda>head.
     bind_err (if 1000000 \<le> l then draw_progress cfg 5 (p div 1000000) (l div 1000000) else Inr [])
       (\<lambda>bar. Inr ((new_image cfg)\<lparr>ops := head @ bar\<rparr>)))"
proof -
  have "(0 < l div 1000000) = (1000000 \<le> l)" by arith
  then show ?thesis using assms by (simp add: update_display_def floordiv_value_def bind_err_def)
qed

lemma draw_progress_unfold:
  "draw_progress cfg 5 P L =
     bind_err (progress_fraction P L) (\<lambda>pr.
     bind_err (int_of_product (display_width cfg - 10) pr) (\<lambda>fw. Inr (progress_ops cfg P L fw)))"
  by (simp add: draw_progress_def progress_ops_def bind_err_def Let_def split: sum.splits)

lemma draw_progress_Inr:
  "draw_progress cfg 5 P L = Inr bar \<Longrightarrow>
   \<exists>pr fw. progress_fraction P L = Inr pr \<and> int_of_product (display_width cfg - 10) pr = Inr fw
     \<and> bar = progress_ops cfg P L fw"
  by (auto simp: draw_progress_unfold bind_err_def split: sum.splits)

lemma progress_ops_rect: "\<exists>op \<in> set (progress_ops cfg P L fw). is_rect op"
  by (simp add: progress_ops_def)

lemma draw_header_no_rect:
  "draw_header textbbox cfg md = Inr head \<Longrightarrow> \<forall>op \<in> set head. \<not> is_rect op"
  by (auto simp: draw_header_def bind_err_def Let_def split: sum.splits prod.splits
      dest: draw_lines_text)

lemma draw_header_icon:
  "draw_header textbbox cfg md = Inr head \<Longrightarrow>
   hd head = DrawIcon (5, 5)
     (if get_default md ''status'' (PStr ''Stopped'') = PStr ''Playing'' then play_icon
      else if get_default md ''status'' (PStr ''Stopped'') = PStr ''Paused'' then pause_icon
      else stop_icon) ''black'' font_medium"
  by (auto simp: draw_header_def bind_err_def Let_def split: sum.splits prod.splits)

text \<open>
  C2 as stated fails: a length of 999999 microseconds is positive, and the frame has
  neither bar nor time label, because the test is made on the length in whole seconds.
\<close>

theorem progress_bar_counterexample:
  "(0::int) < 999999
   \<and> update_display fixed_metric default_config
         (snapshot ''T'' ''Q'' ''A'' 999999 0 ''Playing'' [])
       = Inr \<lparr>mode = ''RGB'', frame_size = (250, 122),
           ops = [DrawIcon (5, 5) play_icon ''black'' font_medium,
                  DrawText (5, 30) ''T'' ''black'' font_large,
                  DrawText (5, 55) ''Q'' ''black'' font_medium,
                  DrawText (5, 75) ''A'' ''black'' font_small]\<rparr>"
  by (simp add: update_display_def floordiv_value_def bind_err_def new_image_def
      default_config_def snapshot_def get_default_def draw_header_def wrap_value_def
      wrap_text_def py_split.simps is_space_def text_width_def fixed_metric_def)

text \<open>
  C2, amended. With \<open>l\<close> the length in microseconds (0 when the key is missing): when
  \<open>l < 1000000\<close> the frame holds the header only, with no rectangle and no time label;
  a frame that is produced holds a rectangle exactly when \<open>1000000 \<le> l\<close>, and then it is
  the header followed by the bar and the time label.
\<close>

theorem progress_bar_iff:
  assumes "get_default md ''position'' (PInt 0) = PInt p"
    and "get_default md ''length'' (PInt 0) = PInt l"
  shows "(l < 1000000 \<longrightarrow>
        update_display textbbox cfg md =
          bind_err (draw_header textbbox cfg md) (\<lambda>head. Inr ((new_image cfg)\<lparr>ops := head\<rparr>)))
    \<and> (update_display textbbox cfg md = Inr frame \<longrightarrow>
         ((\<exists>op \<in> set (ops frame). is_rect op) \<longleftrightarrow> 1000000 \<le> l)
         \<and> (1000000 \<le> l \<longrightarrow>
              (\<exists>head fw. draw_header textbbox cfg md = Inr head
                 \<and> ops frame = head @ progress_ops cfg (p div 1000000) (l div 1000000) fw))
         \<and> (l < 1000000 \<longrightarrow> draw_header textbbox cfg md = Inr (ops frame)))"
proof (intro conjI impI)
  assume "l < 1000000"
  then show "update_display textbbox cfg md =
      bind_err (draw_header textbbox cfg md) (\<lambda>head. Inr ((new_image cfg)\<lparr>ops := head\<rparr>))"
    by (simp add: update_display_unfold [OF assms] bind_err_def split: sum.splits)
next
  assume fr: "update_display textbbox cfg md = Inr frame"
  then obtain head where head: "draw_header textbbox cfg md = Inr head"
    by (auto simp: update_display_unfold [OF assms] bind_err_def split: sum.splits)
  have nr: "\<forall>op \<in> set head. \<not> is_rect op" using draw_header_no_rect [OF head] .
  show "(\<exists>op \<in> set (ops frame). is_rect op) \<longleftrightarrow> 1000000 \<le> l"
  proof (cases "1000000 \<le> l")
    case True
    then obtain bar where bar: "draw_progress cfg 5 (p div 1000000) (l div 1000000) = Inr bar"
      and f: "frame = (new_image cfg)\<lparr>ops := head @ bar\<rparr>"
      using fr head by (auto simp: update_display_unfold [OF assms] bind_err_def split: sum.splits)
    from draw_progress_Inr [OF bar] obtain fw where
      "bar = progress_ops cfg (p div 1000000) (l div 1000000) fw" by blast
    then have "\<exists>op \<in> set bar. is_rect op" using progress_ops_rect by simp
    then show ?thesis using True f by auto
  next
    case False
    then have "frame = (new_image cfg)\<lparr>ops := head\<rparr>"
      using fr head by (auto simp: update_display_unfold [OF assms] bind_err_def)
    then show ?thesis using False nr by simp
  qed
next
  assume fr: "update_display textbbox cfg md = Inr frame" and big: "1000000 \<le> l"
  then obtain head where head: "draw_header textbbox cfg md = Inr head"
    by (auto simp: update_display_unfold [OF assms] bind_err_def split: sum.splits)
  obtain bar where bar: "draw_progress cfg 5 (p div 1000000) (l div 1000000) = Inr bar"
    and f: "frame = (new_image cfg)\<lparr>ops := head @ bar\<rparr>"
    using fr head big by (auto simp: update_display_unfold [OF assms] bind_err_def split: sum.splits)
  from draw_progress_Inr [OF bar] obtain fw where
    "bar = progress_ops cfg (p div 1000000) (l div 1000000) fw" by blast
  then show "\<exists>head fw. draw_header textbbox cfg md = Inr head
      \<and> ops frame = head @ progress_ops cfg (p div 1000000) (l div 1000000) fw"
    using head f by auto
next
  assume fr: "update_display textbbox cfg md = Inr frame" and small: "l < 1000000"
  then show "draw_header textbbox cfg md = Inr (ops frame)"
    by (auto simp: update_display_unfold [OF assms] bind_err_def split: sum.splits)
qed

theorem progress_bar_iff_witness:
  "(\<exists>op \<in> set (ops \<lparr>mode = ''RGB'', frame_size = (250, 122),
       ops = [DrawIcon (5, 5) play_icon ''black'' font_medium,
              DrawText (5, 30) ''T'' ''black'' font_large,
              DrawText (5, 55) ''Q'' ''black'' font_medium,
              DrawText (5, 75) ''A'' ''black'' font_small,
              DrawRect (5, 87, 245, 97) (Some ''black'') (Some ''white''),
              DrawRect (5, 87, 86, 97) None (Some ''black''),
              DrawText (5, 99) ''02:00 / 05:54'' ''black'' font_small]\<rparr>). is_rect op)
   = ((1000000::int) \<le> 354000000)"
proof -
  let ?t = "snapshot ''T'' ''Q'' ''A'' 354000000 120000000 ''Playing'' []"
  have p: "get_default ?t ''position'' (PInt 0) = PInt 120000000"
    and l: "get_default ?t ''length'' (PInt 0) = PInt 354000000"
    by (simp_all add: snapshot_def get_default_def)
  from progress_bar_iff [OF p l, of fixed_metric default_config] update_display_track
  show ?thesis by blast
qed

end
